theory Spec2Isabelle
  imports Main "HOL-Library.Sublist"
begin

section \<open>Strings of the build script\<close>

text \<open>
  JavaScript strings are modelled as \<open>string\<close>; a \<open>char\<close> stands for one code unit
  below 256, which covers the escape introducers U+001B and U+009B and the bell U+0007
  of the pattern below.
\<close>

definition newline :: char where
  "newline = CHR 0x0A"

text \<open>\<open>String.prototype.includes\<close> and an unanchored \<open>RegExp.test\<close> of a literal:
  the needle occurs somewhere in the text.\<close>

fun includes_str :: "string \<Rightarrow> string \<Rightarrow> bool" where
  "includes_str [] needle = (needle = [])"
| "includes_str (c # cs) needle = (prefix needle (c # cs) \<or> includes_str cs needle)"

text \<open>\<open>String.prototype.split("\n")\<close>: the segments between newlines; the result is
  never empty and its last element is what follows the last newline.\<close>

fun split_nl :: "string \<Rightarrow> string list" where
  "split_nl [] = [[]]"
| "split_nl (c # cs) =
     (let rest = split_nl cs
      in if c = newline then [] # rest else (c # hd rest) # tl rest)"

section \<open>The ANSI pattern\<close>

text \<open>
  Regular expressions with the backtracking order of JavaScript: \<open>rx_match r s\<close> lists
  the remainders of \<open>s\<close> after each way \<open>r\<close> can match at the start of \<open>s\<close>, the way
  the engine tries first at the head. Quantifiers are greedy. A class is a list of
  inclusive ranges.
\<close>

datatype rx =
    Cls "(char \<times> char) list"
  | Seq rx rx
  | Alt rx rx
  | Opt rx
  | Star rx
  | Rep nat nat rx

definition in_cls :: "(char \<times> char) list \<Rightarrow> char \<Rightarrow> bool" where
  "in_cls rs c = list_ex (\<lambda>(lo, hi). (of_char lo :: nat) \<le> of_char c \<and> (of_char c :: nat) \<le> of_char hi) rs"

text \<open>One more iteration of a starred body is tried before leaving the loop; an
  iteration that consumes nothing is rejected, so \<open>length s\<close> rounds are enough.\<close>

primrec star_iter :: "nat \<Rightarrow> (string \<Rightarrow> string list) \<Rightarrow> string \<Rightarrow> string list" where
  "star_iter 0 f s = [s]"
| "star_iter (Suc n) f s =
     concat (map (star_iter n f) (filter (\<lambda>t. length t < length s) (f s))) @ [s]"

text \<open>\<open>r{lo,hi}\<close>: at most \<open>hi\<close> iterations, leaving the loop allowed once \<open>lo\<close> are done.\<close>

primrec rep_iter :: "nat \<Rightarrow> nat \<Rightarrow> (string \<Rightarrow> string list) \<Rightarrow> string \<Rightarrow> string list" where
  "rep_iter 0 lo f s = (if lo = 0 then [s] else [])"
| "rep_iter (Suc hi) lo f s =
     concat (map (rep_iter hi (lo - 1) f) (f s)) @ (if lo = 0 then [s] else [])"

primrec rx_match :: "rx \<Rightarrow> string \<Rightarrow> string list" where
  "rx_match (Cls rs) = (\<lambda>s. case s of [] \<Rightarrow> [] | c # t \<Rightarrow> if in_cls rs c then [t] else [])"
| "rx_match (Seq a b) = (\<lambda>s. concat (map (rx_match b) (rx_match a s)))"
| "rx_match (Alt a b) = (\<lambda>s. rx_match a s @ rx_match b s)"
| "rx_match (Opt a) = (\<lambda>s. rx_match a s @ [s])"
| "rx_match (Star a) = (\<lambda>s. star_iter (length s) (rx_match a) s)"
| "rx_match (Rep lo hi a) = (\<lambda>s. rep_iter hi lo (rx_match a) s)"

definition one :: "char \<Rightarrow> (char \<times> char) list" where
  "one c = [(c, c)]"

definition digit :: "(char \<times> char) list" where
  "digit = [(CHR ''0'', CHR ''9'')]"

definition esc_cls :: "(char \<times> char) list" where
  "esc_cls = one (CHR 0x1B) @ one (CHR 0x9B)"

definition intro_cls :: "(char \<times> char) list" where
  "intro_cls = one CHR ''['' @ one CHR '']'' @ one CHR ''('' @ one CHR '')'' @ one CHR ''#''
     @ one CHR '';'' @ one CHR ''?''"

definition alnum_cls :: "(char \<times> char) list" where
  "alnum_cls = [(CHR ''a'', CHR ''z''), (CHR ''A'', CHR ''Z'')] @ digit"

definition param_cls :: "(char \<times> char) list" where
  "param_cls = one CHR ''-'' @ [(CHR ''a'', CHR ''z''), (CHR ''A'', CHR ''Z'')] @ digit
     @ one CHR ''/'' @ one CHR ''#'' @ one CHR ''&'' @ one CHR ''.'' @ one CHR '':''
     @ one CHR ''='' @ one CHR ''?'' @ one CHR ''%'' @ one CHR ''@'' @ one CHR ''~''
     @ one CHR ''_''"

definition final_cls :: "(char \<times> char) list" where
  "final_cls = digit @ [(CHR ''A'', CHR ''P''), (CHR ''R'', CHR ''T'')] @ one CHR ''Z''
     @ one CHR ''c'' @ [(CHR ''f'', CHR ''n'')] @ one CHR ''t'' @ one CHR ''q''
     @ one CHR ''r'' @ one CHR ''y'' @ one CHR ''='' @ one CHR ''>'' @ one CHR ''<''
     @ one CHR ''~''"

text \<open>The first alternative, closed by the bell:
  \<open>(?:(?:[a-zA-Z\d]*(?:;[-a-zA-Z\d\/#&.:=?%@~_]*)*)?\u0007)\<close>.\<close>

definition osc_alt :: rx where
  "osc_alt = Seq (Opt (Seq (Star (Cls alnum_cls))
                           (Star (Seq (Cls (one CHR '';'')) (Star (Cls param_cls))))))
                 (Cls (one (CHR 0x07)))"

text \<open>The second alternative, closed by a final byte:
  \<open>(?:(?:\d{1,4}(?:;\d{0,4})*)?[\dA-PR-TZcf-ntqry=><~])\<close>.\<close>

definition csi_alt :: rx where
  "csi_alt = Seq (Opt (Seq (Rep 1 4 (Cls digit))
                           (Star (Seq (Cls (one CHR '';'')) (Rep 0 4 (Cls digit))))))
                 (Cls final_cls)"

text \<open>\<open>pattern\<close>: \<open>[\u001B\u009B][[\]()#;?]*(?:osc_alt|csi_alt)\<close>.\<close>

definition pattern :: rx where
  "pattern = Seq (Cls esc_cls) (Seq (Star (Cls intro_cls)) (Alt osc_alt csi_alt))"

text \<open>
  \<open>line.replace(re, "")\<close> with the global flag: scan from the left; where the pattern
  matches, drop the match the engine finds first and go on behind it; where it does not,
  keep the character. A match that consumes nothing leaves the character in place.
\<close>

function replace_re :: "string \<Rightarrow> string" where
  "replace_re [] = []"
| "replace_re (c # cs) =
     (case filter (\<lambda>t. length t < length (c # cs)) (take 1 (rx_match pattern (c # cs))) of
        [] \<Rightarrow> c # replace_re cs
      | t # _ \<Rightarrow> replace_re t)"
  by pat_completeness auto
termination
proof (relation "measure length")
  fix c cs x21 x22
  assume "filter (\<lambda>t. length t < length (c # cs)) (take 1 (rx_match pattern (c # cs))) = x21 # x22"
  then have "x21 \<in> set (filter (\<lambda>t. length t < length (c # cs)) (take 1 (rx_match pattern (c # cs))))"
    by simp
  then show "(x21, c # cs) \<in> measure length" by simp
qed simp_all

section \<open>The line reader\<close>

text \<open>
  The \<open>data\<close> listener that \<open>onLine\<close> installs, for one chunk \<open>d\<close> and the
  buffer of its closure (empty at first): the callback gets
  every segment but the last, stripped and as it is, in order; the last segment is the new
  buffer. The state of the callback's closure is threaded through. (\<open>onLine\<close> throws
  when the process has no standard output; the two watchers are spawned with one.)
\<close>

definition on_data :: "(string \<Rightarrow> string \<Rightarrow> 's \<Rightarrow> 's) \<Rightarrow> string \<Rightarrow> string \<times> 's \<Rightarrow> string \<times> 's" where
  "on_data callback d = (\<lambda>(buffer, st).
     let data = buffer @ d;
         split = split_nl data;
         last = length split - 1
     in (split ! last, fold (\<lambda>l. callback (replace_re l) l) (take last split) st))"

text \<open>A callback that records its arguments, to observe what the reader emits.\<close>

definition record_line :: "string \<Rightarrow> string \<Rightarrow> (string \<times> string) list \<Rightarrow> (string \<times> string) list" where
  "record_line strippedLine originalLine calls = calls @ [(strippedLine, originalLine)]"


section \<open>Side effects\<close>

text \<open>
  What the script does to the outside, in the order it does it. The children of the
  watch task are the two watchers and the servers; a server is named by the number of
  servers forked before it, which also stands for its pid.
\<close>

datatype proc = Vscode | Tsc | Server nat

datatype effect =
    StdoutWrite string
  | StderrWrite string
  | ConsoleLog "string list"
  | ConsoleError "string list"
  | Exec string
  | Spawn string "string list"
  | Bundle
  | Fork nat
  | RemoveAllListeners proc
  | Kill proc
  | ProcessExit nat

datatype error = Error string

text \<open>A string that may be \<open>undefined\<close> is truthy when it is there and not empty.\<close>

definition truthy :: "string option \<Rightarrow> bool" where
  "truthy v = (case v of None \<Rightarrow> False | Some s \<Rightarrow> s \<noteq> [])"

function showNat :: "nat \<Rightarrow> string" where
  "showNat n = (if n < 10 then [char_of (48 + n)]
                else showNat (n div 10) @ [char_of (48 + n mod 10)])"
  by pat_completeness auto
termination
  by (relation "measure id") auto

declare showNat.simps [simp del]

section \<open>The builder\<close>

datatype target = Darwin | Alpine | Linux

fun target_name :: "target \<Rightarrow> string" where
  "target_name Darwin = ''darwin''"
| "target_name Alpine = ''alpine''"
| "target_name Linux = ''linux''"

text \<open>The promise of \<open>util.promisify(cp.exec)\<close>: resolved with the two outputs, or
  rejected with an error, of which the script reads the message.\<close>

datatype exec_result = Resolved string string | Rejected string

text \<open>The facts of the host the script reads: \<open>os.platform()\<close>, \<open>os.arch()\<close>, the
  environment, and what \<open>ldd --version\<close> gives when it is run.\<close>

record host =
  os_platform :: string
  os_arch :: string
  env_OSTYPE :: "string option"
  env_AUTO_PATCH :: "string option"
  ldd_version :: exec_result

record builder =
  codeServerVersion :: string
  cached_target :: "target option"
  currentTask :: "string option"

definition log :: "builder \<Rightarrow> string \<Rightarrow> effect list" where
  "log b message =
     [StdoutWrite (''['' @ (case currentTask b of
                             None \<Rightarrow> ''default''
                           | Some t \<Rightarrow> if t = [] then ''default'' else t) @ ''] '' @ message),
      StdoutWrite [newline]]"

definition ensureArgument :: "builder \<Rightarrow> string \<Rightarrow> string option \<Rightarrow> error + effect list \<times> string" where
  "ensureArgument b name arg =
     (case arg of
        None \<Rightarrow> Inl (Error (name @ '' is missing''))
      | Some a \<Rightarrow>
          if a = [] then Inl (Error (name @ '' is missing''))
          else Inr (log b (name @ '' is '' @ [CHR 0x22] @ a @ [CHR 0x22]), a))"

text \<open>\<open>target\<close>: the cached target if there is one; else Darwin from the platform or from
  \<open>OSTYPE\<close>, else the probe, whose rejection is read as its message on the error output.\<close>

definition target :: "host \<Rightarrow> builder \<Rightarrow> builder \<times> effect list \<times> target" where
  "target h b =
     (case cached_target b of
        Some t \<Rightarrow> (b, [], t)
      | None \<Rightarrow>
          if os_platform h = ''darwin''
             \<or> (case env_OSTYPE h of None \<Rightarrow> False | Some v \<Rightarrow> v \<noteq> [] \<and> prefix ''darwin'' v)
          then (b\<lparr>cached_target := Some Darwin\<rparr>, [], Darwin)
          else
            let (stderr, stdout) =
                  (case ldd_version h of
                     Resolved out err \<Rightarrow> (err, out)
                   | Rejected message \<Rightarrow> (message, []))
            in if includes_str stderr ''musl'' \<or> includes_str stdout ''musl''
               then (b\<lparr>cached_target := Some Alpine\<rparr>, [Exec ''ldd --version''], Alpine)
               else (b\<lparr>cached_target := Some Linux\<rparr>, [Exec ''ldd --version''], Linux))"

text \<open>\<open>os.arch().replace(/^x/, "x86_")\<close>.\<close>

definition arch_name :: "string \<Rightarrow> string" where
  "arch_name a = (case a of [] \<Rightarrow> [] | c # cs \<Rightarrow> if c = CHR ''x'' then ''x86_'' @ cs else a)"

text \<open>The flow \<open>doRun\<close> hands over to; the flows themselves are not modelled here,
  but for \<open>watch\<close> below.\<close>

datatype pipeline = RunWatch | RunBinary string | RunPackage string | RunBuild

definition doRun :: "host \<Rightarrow> builder \<Rightarrow> string option \<Rightarrow> builder \<times> effect list \<times> (error + pipeline)" where
  "doRun h b task =
     (case task of
        None \<Rightarrow> (b, [], Inl (Error ''No task provided''))
      | Some t \<Rightarrow>
          if t = [] then (b, [], Inl (Error ''No task provided''))
          else
            (case ensureArgument b ''arch'' (Some (arch_name (os_arch h))) of
               Inl e \<Rightarrow> (b, [], Inl e)
             | Inr (fx1, arch) \<Rightarrow>
                 (case target h b of (b1, fx2, tg) \<Rightarrow>
                    (case ensureArgument b1 ''target'' (Some (target_name tg)) of
                       Inl e \<Rightarrow> (b1, fx1 @ fx2, Inl e)
                     | Inr (fx3, tname) \<Rightarrow>
                         let binaryName = ''code-server-'' @ codeServerVersion b1 @ ''-''
                                            @ tname @ ''-'' @ arch;
                             fx = fx1 @ fx2 @ fx3
                         in if t = ''watch'' then (b1, fx, Inr RunWatch)
                            else if t = ''binary'' then (b1, fx, Inr (RunBinary binaryName))
                            else if t = ''package'' then (b1, fx, Inr (RunPackage binaryName))
                            else if t = ''build'' then (b1, fx, Inr RunBuild)
                            else (b1, fx, Inl (Error (''No task matching '' @ [CHR 0x22] @ t
                                                       @ [CHR 0x22])))))))"

text \<open>\<open>run\<close>: an error of \<open>doRun\<close> is printed and ends the process with code 1; the
  result is the flow entered, if any.\<close>

definition run :: "host \<Rightarrow> builder \<Rightarrow> string option \<Rightarrow> builder \<times> effect list \<times> pipeline option" where
  "run h b task =
     (case doRun h (b\<lparr>currentTask := task\<rparr>) task of
        (b1, fx, Inl (Error message)) \<Rightarrow> (b1, fx @ [ConsoleError [message], ProcessExit 1], None)
      | (b1, fx, Inr p) \<Rightarrow> (b1, fx, Some p))"

text \<open>The host facts the target depends on: Darwin by the platform or by
  \<open>OSTYPE\<close>, and the outputs of the probe, the message of a failed one included.\<close>

definition darwin_host :: "host \<Rightarrow> bool" where
  "darwin_host h = (os_platform h = ''darwin''
     \<or> (case env_OSTYPE h of None \<Rightarrow> False | Some v \<Rightarrow> prefix ''darwin'' v))"

definition probe_outputs :: "host \<Rightarrow> string list" where
  "probe_outputs h = (case ldd_version h of
                        Resolved out err \<Rightarrow> [out, err]
                      | Rejected message \<Rightarrow> [message])"

definition task_names :: "string list" where
  "task_names = [''binary'', ''package'', ''build'', ''watch'']"

definition spawns_child :: "effect \<Rightarrow> bool" where
  "spawns_child e = (case e of Exec _ \<Rightarrow> True | Spawn _ _ \<Rightarrow> True | Fork _ \<Rightarrow> True
                     | Bundle \<Rightarrow> False | _ \<Rightarrow> False)"

text \<open>The message a rejected task is reported with.\<close>

definition task_error :: "host \<Rightarrow> string option \<Rightarrow> string" where
  "task_error h task =
     (case task of
        None \<Rightarrow> ''No task provided''
      | Some t \<Rightarrow>
          if t = [] then ''No task provided''
          else if os_arch h = [] then ''arch is missing''
          else ''No task matching '' @ [CHR 0x22] @ t @ [CHR 0x22])"

text \<open>Hosts and a builder to run the definitions on.\<close>

definition glibc_host :: host where
  "glibc_host = \<lparr>os_platform = ''linux'', os_arch = ''x64'', env_OSTYPE = None,
     env_AUTO_PATCH = Some ''1'',
     ldd_version = Resolved ''ldd (GNU libc) 2.31'' []\<rparr>"

definition alpine_host :: host where
  "alpine_host = \<lparr>os_platform = ''linux'', os_arch = ''x64'', env_OSTYPE = None,
     env_AUTO_PATCH = None,
     ldd_version = Rejected ''Command failed: ldd --version musl libc (x86_64)''\<rparr>"

definition mac_host :: host where
  "mac_host = \<lparr>os_platform = ''darwin'', os_arch = ''x64'', env_OSTYPE = None,
     env_AUTO_PATCH = None, ldd_version = Rejected ''Command failed: ldd --version''\<rparr>"

definition new_builder :: builder where
  "new_builder = \<lparr>codeServerVersion = ''3.0.0'', cached_target = None, currentTask = None\<rparr>"

section \<open>The watch task\<close>

text \<open>
  The variables of \<open>watch\<close> and of the two \<open>onLine\<close> closures, with what the process has
  done so far. \<open>bundle_settled\<close> and \<open>bundle_then\<close> are the promise \<open>bundle\<close>: whether the
  bundler's \<open>bundle()\<close> has resolved, and how many \<open>then(restartServer)\<close> reactions wait
  on it. \<open>exit_listeners\<close> are the children whose \<open>exit\<close> listener is attached.
  \<open>forked\<close> counts the servers forked, and \<open>running\<close> lists the servers whose exit has
  not been reported yet. \<open>exit_code\<close> is set once \<open>process.exit\<close> was called.

  \<open>bundler_busy\<close> is the bundler's side: a bundle operation is in flight. The bundler
  is in watch mode; it announces every operation, the first one and each rebuild after a
  change of the sources, with \<open>buildStart\<close> and closes it with \<open>buildEnd\<close>. The script
  listens to \<open>buildEnd\<close> and \<open>buildError\<close> only, and holds the promise of the first
  operation.
\<close>

record watch_state =
  server :: "nat option"
  startingVscode :: bool
  vscode_buffer :: string
  tsc_buffer :: string
  bundle_settled :: bool
  bundle_then :: nat
  bundler_busy :: bool
  exit_listeners :: "proc list"
  forked :: nat
  running :: "nat list"
  effects :: "effect list"
  exit_code :: "nat option"

definition restartServer :: "watch_state \<Rightarrow> watch_state" where
  "restartServer s =
     (let pid = forked s
      in s\<lparr>effects := effects s
              @ (case server s of None \<Rightarrow> [] | Some p \<Rightarrow> [Kill (Server p)])
              @ [Fork pid, ConsoleLog [''[server] spawned process '' @ showNat pid]],
           exit_listeners := exit_listeners s @ [Server pid],
           forked := Suc pid,
           running := running s @ [pid],
           server := Some pid\<rparr>)"

text \<open>\<open>code || 0\<close>, for an exit code that may be \<open>null\<close> or absent.\<close>

definition or_zero :: "nat option \<Rightarrow> nat" where
  "or_zero code = (case code of None \<Rightarrow> 0 | Some c \<Rightarrow> c)"

definition cleanup :: "builder \<Rightarrow> nat option \<Rightarrow> watch_state \<Rightarrow> watch_state" where
  "cleanup b code s =
     s\<lparr>effects := effects s
          @ log b ''killing vs code watcher'' @ [RemoveAllListeners Vscode, Kill Vscode]
          @ log b ''killing tsc'' @ [RemoveAllListeners Tsc, Kill Tsc]
          @ (case server s of
               None \<Rightarrow> []
             | Some p \<Rightarrow> log b ''killing server'' @ [RemoveAllListeners (Server p), Kill (Server p)])
          @ log b ''killing bundler'' @ [ProcessExit (or_zero code)],
        exit_listeners :=
          filter (\<lambda>c. c \<noteq> Vscode \<and> c \<noteq> Tsc \<and> Some c \<noteq> map_option Server (server s))
            (exit_listeners s),
        exit_code := Some (or_zero code)\<rparr>"

text \<open>The callback on the lines of the editor watcher.\<close>

definition vscode_line :: "host \<Rightarrow> string \<Rightarrow> string \<Rightarrow> watch_state \<Rightarrow> watch_state" where
  "vscode_line h line original s =
     (let s1 = s\<lparr>effects := effects s @ [ConsoleLog [''[vscode]'', original]]\<rparr>
      in if \<not> startingVscode s1 \<and> includes_str line ''Starting watch-client''
         then s1\<lparr>startingVscode := True\<rparr>
         else if startingVscode s1 \<and> includes_str line ''Finished compilation''
                 \<and> truthy (env_AUTO_PATCH h)
         then s1\<lparr>effects := effects s1 @ [Exec ''yarn patch:generate'']\<rparr>
         else s1)"

text \<open>The callback on the lines of the type checker: \<open>bundle.then(restartServer)\<close> adds a
  reaction to the promise.\<close>

definition tsc_line :: "string \<Rightarrow> string \<Rightarrow> watch_state \<Rightarrow> watch_state" where
  "tsc_line line original s =
     (let s1 = (if line \<noteq> [] then s\<lparr>effects := effects s @ [ConsoleLog [''[tsc]'', original]]\<rparr>
                else s)
      in if includes_str line ''Watching for file changes''
         then s1\<lparr>bundle_then := Suc (bundle_then s1)\<rparr>
         else s1)"

text \<open>What the event loop delivers to the listeners that \<open>watch\<close> installs.\<close>

datatype event =
    SIGINT
  | SIGTERM
  | VscodeExit "nat option"
  | TscExit "nat option"
  | ServerExit nat
  | BundleResolved
  | BundleRejected
  | BuildStart
  | BuildEnd
  | BuildError string
  | VscodeStderr string
  | TscStderr string
  | VscodeStdout string
  | TscStdout string
  | PatchGenerated "string option" string

definition on_event :: "host \<Rightarrow> builder \<Rightarrow> event \<Rightarrow> watch_state \<Rightarrow> watch_state" where
  "on_event h b e s =
     (case e of
        SIGINT \<Rightarrow> cleanup b None s
      | SIGTERM \<Rightarrow> cleanup b None s
      | VscodeExit code \<Rightarrow>
          if Vscode \<in> set (exit_listeners s)
          then cleanup b code
                 (s\<lparr>effects := effects s @ log b ''vs code watcher terminated unexpectedly''\<rparr>)
          else s
      | TscExit code \<Rightarrow>
          if Tsc \<in> set (exit_listeners s)
          then cleanup b code (s\<lparr>effects := effects s @ log b ''tsc terminated unexpectedly''\<rparr>)
          else s
      | ServerExit p \<Rightarrow>
          (if Server p \<in> set (exit_listeners s)
           then s\<lparr>effects := effects s
                    @ [ConsoleLog [''[server] process '' @ showNat p @ '' exited'']]\<rparr>
           else s)\<lparr>running := removeAll p (running s)\<rparr>
      | BundleResolved \<Rightarrow> s\<lparr>bundle_settled := True\<rparr>
      | BundleRejected \<Rightarrow>
          if bundle_settled s then s
          else cleanup b (Some 1)
                 (s\<lparr>effects := effects s @ log b ''parcel watcher terminated unexpectedly''\<rparr>)
      | BuildStart \<Rightarrow> s\<lparr>bundler_busy := True\<rparr>
      | BuildEnd \<Rightarrow>
          s\<lparr>effects := effects s @ [ConsoleLog [''[parcel] bundled'']], bundler_busy := False\<rparr>
      | BuildError err \<Rightarrow> s\<lparr>effects := effects s @ [ConsoleError [''[parcel]'', err]]\<rparr>
      | VscodeStderr d \<Rightarrow> s\<lparr>effects := effects s @ [StderrWrite d]\<rparr>
      | TscStderr d \<Rightarrow> s\<lparr>effects := effects s @ [StderrWrite d]\<rparr>
      | VscodeStdout d \<Rightarrow>
          (case on_data (vscode_line h) d (vscode_buffer s, s) of
             (buffer, s1) \<Rightarrow> s1\<lparr>vscode_buffer := buffer\<rparr>)
      | TscStdout d \<Rightarrow>
          (case on_data tsc_line d (tsc_buffer s, s) of
             (buffer, s1) \<Rightarrow> s1\<lparr>tsc_buffer := buffer\<rparr>)
      | PatchGenerated err stderr \<Rightarrow>
          if err \<noteq> None \<or> stderr \<noteq> []
          then s\<lparr>effects := effects s
                   @ [ConsoleError [case err of Some message \<Rightarrow> message | None \<Rightarrow> stderr]]\<rparr>
          else s)"

text \<open>Once a listener has returned, the reactions waiting on a resolved \<open>bundle\<close> run.\<close>

definition then_jobs :: "watch_state \<Rightarrow> watch_state" where
  "then_jobs s =
     (if bundle_settled s \<and> exit_code s = None
      then (restartServer ^^ bundle_then s) (s\<lparr>bundle_then := 0\<rparr>)
      else s)"

text \<open>One turn of the event loop. After \<open>process.exit\<close> there is no process to deliver
  an event to.\<close>

definition step :: "host \<Rightarrow> builder \<Rightarrow> event \<Rightarrow> watch_state \<Rightarrow> watch_state" where
  "step h b e s = (if exit_code s \<noteq> None then s else then_jobs (on_event h b e s))"

definition run_events :: "host \<Rightarrow> builder \<Rightarrow> event list \<Rightarrow> watch_state \<Rightarrow> watch_state" where
  "run_events h b es s = fold (step h b) es s"

text \<open>\<open>watch\<close> up to its return: the two watchers are spawned, the bundler is started,
  the listeners are installed.\<close>

definition watch :: watch_state where
  "watch =
     \<lparr>server = None, startingVscode = False, vscode_buffer = [], tsc_buffer = [],
      bundle_settled = False, bundle_then = 0, bundler_busy = True,
      exit_listeners = [Vscode, Tsc],
      forked = 0, running = [],
      effects = [Spawn ''yarn'' [''watch''],
                 Spawn ''tsc'' [''--watch'', ''--pretty'', ''--preserveWatchOutput''],
                 Bundle],
      exit_code = None\<rparr>"

text \<open>Counting in a trace: servers forked, and runs of the patch command.\<close>

definition forks :: "effect list \<Rightarrow> nat" where
  "forks fx = length (filter (\<lambda>e. case e of Fork _ \<Rightarrow> True | _ \<Rightarrow> False) fx)"

definition patches :: "effect list \<Rightarrow> nat" where
  "patches fx = length (filter (\<lambda>e. e = Exec ''yarn patch:generate'') fx)"

text \<open>What the two watchers have written to their standard outputs in a list of
  events: the chunks, in order.\<close>

definition vscode_chunks :: "event list \<Rightarrow> string list" where
  "vscode_chunks es = List.map_filter (\<lambda>e. case e of VscodeStdout d \<Rightarrow> Some d | _ \<Rightarrow> None) es"

definition tsc_chunks :: "event list \<Rightarrow> string list" where
  "tsc_chunks es = List.map_filter (\<lambda>e. case e of TscStdout d \<Rightarrow> Some d | _ \<Rightarrow> None) es"

text \<open>The part of the state the editor callback works on: the flag, and the runs of the
  patch command so far; and the callback on that part.\<close>

definition vscode_view :: "watch_state \<Rightarrow> string \<times> bool \<times> nat" where
  "vscode_view s = (vscode_buffer s, startingVscode s, patches (effects s))"

definition vscode_count :: "host \<Rightarrow> string \<Rightarrow> string \<Rightarrow> bool \<times> nat \<Rightarrow> bool \<times> nat" where
  "vscode_count h line original = (\<lambda>(starting, n).
     if \<not> starting \<and> includes_str line ''Starting watch-client'' then (True, n)
     else if starting \<and> includes_str line ''Finished compilation'' \<and> truthy (env_AUTO_PATCH h)
     then (starting, Suc n)
     else (starting, n))"

text \<open>The same for the type checker: the reactions waiting on \<open>bundle\<close>.\<close>

definition tsc_view :: "watch_state \<Rightarrow> string \<times> nat" where
  "tsc_view s = (tsc_buffer s, bundle_then s)"

definition tsc_count :: "string \<Rightarrow> string \<Rightarrow> nat \<Rightarrow> nat" where
  "tsc_count line original n =
     (if includes_str line ''Watching for file changes'' then Suc n else n)"

text \<open>Every server that has not been reported to exit is the one \<open>server\<close> holds, or has
  been sent the kill signal.\<close>

definition others_killed :: "watch_state \<Rightarrow> bool" where
  "others_killed s \<longleftrightarrow>
     (\<forall>p \<in> set (running s). server s = Some p \<or> Kill (Server p) \<in> set (effects s))"

definition watch_builder :: builder where
  "watch_builder = \<lparr>codeServerVersion = ''3.0.0'', cached_target = Some Linux,
     currentTask = Some ''watch''\<rparr>"

section \<open>Properties of the line reader\<close>

lemma split_nl_Cons:
  "split_nl (c # cs) =
     (if c = newline then [] # split_nl cs else (c # hd (split_nl cs)) # tl (split_nl cs))"
  by (simp add: Let_def)

declare split_nl.simps(2) [simp del]
declare split_nl_Cons [simp]

lemma split_nl_nonempty: "split_nl s \<noteq> []"
  by (induction s) auto

lemma split_nl_append:
  "split_nl (a @ b) = butlast (split_nl a) @ split_nl (last (split_nl a) @ b)"
proof (induction a)
  case Nil
  then show ?case by simp
next
  case (Cons c a)
  show ?case
  proof (cases "c = newline")
    case True
    then show ?thesis using Cons split_nl_nonempty [of a] by simp
  next
    case False
    show ?thesis
    proof (cases "butlast (split_nl a) = []")
      case True
      then obtain l where l: "split_nl a = [l]"
        using split_nl_nonempty [of a] by (cases "split_nl a") (auto split: if_splits)
      with Cons False show ?thesis by simp
    next
      case nb: False
      then obtain l ls where l: "split_nl a = l # ls" "ls \<noteq> []"
        by (cases "split_nl a") (auto split: if_splits)
      with Cons False show ?thesis by simp
    qed
  qed
qed

lemma on_data_eq:
  "on_data cb d (last (split_nl pre), fold (\<lambda>l. cb (replace_re l) l) (butlast (split_nl pre)) st) =
   (last (split_nl (pre @ d)), fold (\<lambda>l. cb (replace_re l) l) (butlast (split_nl (pre @ d))) st)"
proof -
  let ?b = "last (split_nl pre)"
  have ne: "split_nl (?b @ d) \<noteq> []" by (rule split_nl_nonempty)
  have a: "split_nl (pre @ d) = butlast (split_nl pre) @ split_nl (?b @ d)"
    by (rule split_nl_append)
  have l: "last (split_nl (pre @ d)) = last (split_nl (?b @ d))"
    using a ne by simp
  have b: "butlast (split_nl (pre @ d)) = butlast (split_nl pre) @ butlast (split_nl (?b @ d))"
    using a ne by (simp add: butlast_append)
  have i: "split_nl (?b @ d) ! (length (split_nl (?b @ d)) - Suc 0) = last (split_nl (?b @ d))"
    using ne by (simp add: last_conv_nth)
  have t: "take (length (split_nl (?b @ d)) - Suc 0) (split_nl (?b @ d)) = butlast (split_nl (?b @ d))"
    by (simp add: butlast_conv_take)
  show ?thesis
    unfolding on_data_def by (simp add: Let_def i t l b)
qed

lemma fold_on_data:
  "fold (on_data cb) chunks
     (last (split_nl pre), fold (\<lambda>l. cb (replace_re l) l) (butlast (split_nl pre)) st) =
   (last (split_nl (pre @ concat chunks)),
    fold (\<lambda>l. cb (replace_re l) l) (butlast (split_nl (pre @ concat chunks))) st)"
proof (induction chunks arbitrary: pre)
  case Nil
  then show ?case by simp
next
  case (Cons d chunks)
  show ?case using Cons [of "pre @ d"] by (simp add: on_data_eq)
qed

lemma fold_record_line:
  "fold (\<lambda>l. record_line (f l) l) ls acc = acc @ map (\<lambda>l. (f l, l)) ls"
  by (induction ls arbitrary: acc) (simp_all add: record_line_def)

lemma split_nl_join:
  "concat (map (\<lambda>l. l @ [newline]) (butlast (split_nl s))) @ last (split_nl s) = s"
proof (induction s)
  case Nil
  then show ?case by simp
next
  case (Cons c s)
  show ?case
  proof (cases "split_nl s")
    case Nil
    then show ?thesis using split_nl_nonempty by simp
  next
    case (Cons l ls)
    with Cons.IH show ?thesis by (cases ls) (auto split: if_splits)
  qed
qed

lemma split_nl_no_newline: "newline \<notin> set (concat (split_nl s))"
proof (induction s)
  case Nil
  then show ?case by simp
next
  case (Cons c s)
  show ?case
  proof (cases "split_nl s")
    case Nil
    then show ?thesis using split_nl_nonempty by simp
  next
    case (Cons l ls)
    with Cons.IH show ?thesis by auto
  qed
qed

lemma reader_emits:
  "fold (on_data record_line) chunks ([], []) =
     (last (split_nl (concat chunks)),
      map (\<lambda>l. (replace_re l, l)) (butlast (split_nl (concat chunks))))"
  using fold_on_data [of record_line chunks "[]" "[]"] by (simp add: fold_record_line)

text \<open>
  C3: however the stream is cut into chunks, the reader calls back with exactly the
  newline-terminated lines of the whole stream, in order, each stripped by itself and
  together with the line as it was; what follows the last newline stays in the buffer
  and is not emitted. The lines and the withheld rest, joined by newlines, are the stream,
  and no emitted line holds a newline.
\<close>

theorem onLine_fragmentation:
  "fold (on_data record_line) chunks ([], []) =
     (last (split_nl (concat chunks)),
      map (\<lambda>l. (replace_re l, l)) (butlast (split_nl (concat chunks))))
   \<and> concat (map (\<lambda>l. l @ [newline]) (butlast (split_nl (concat chunks))))
       @ last (split_nl (concat chunks)) = concat chunks
   \<and> newline \<notin> set (concat (split_nl (concat chunks)))"
  using reader_emits [of chunks] split_nl_join [of "concat chunks"]
    split_nl_no_newline [of "concat chunks"]
  by blast

subsection \<open>What the pattern removes\<close>













section \<open>Properties of the builder\<close>

lemma target_cases:
  assumes "cached_target b = None"
  shows "target h b =
     (if darwin_host h then (b\<lparr>cached_target := Some Darwin\<rparr>, [], Darwin)
      else if list_ex (\<lambda>out. includes_str out ''musl'') (probe_outputs h)
      then (b\<lparr>cached_target := Some Alpine\<rparr>, [Exec ''ldd --version''], Alpine)
      else (b\<lparr>cached_target := Some Linux\<rparr>, [Exec ''ldd --version''], Linux))"
proof -
  have d: "darwin_host h \<longleftrightarrow> os_platform h = ''darwin''
     \<or> (case env_OSTYPE h of None \<Rightarrow> False | Some v \<Rightarrow> v \<noteq> [] \<and> prefix ''darwin'' v)"
    by (auto simp: darwin_host_def split: option.splits)
  show ?thesis
    using assms unfolding d
    by (cases "ldd_version h") (auto simp: target_def probe_outputs_def)
qed

text \<open>
  C8: with no target cached, a Darwin host resolves to \<open>darwin\<close> and nothing is run; any
  other host runs the probe and resolves to \<open>alpine\<close> when an output of the probe (the
  message of a failed probe included) holds \<open>musl\<close>, and to \<open>linux\<close> when none does.
\<close>

theorem target_resolution:
  assumes "cached_target b = None"
  shows "(darwin_host h \<longrightarrow> target h b = (b\<lparr>cached_target := Some Darwin\<rparr>, [], Darwin))
     \<and> (\<not> darwin_host h \<and> list_ex (\<lambda>out. includes_str out ''musl'') (probe_outputs h) \<longrightarrow>
          snd (target h b) = ([Exec ''ldd --version''], Alpine))
     \<and> (\<not> darwin_host h \<and> \<not> list_ex (\<lambda>out. includes_str out ''musl'') (probe_outputs h) \<longrightarrow>
          snd (target h b) = ([Exec ''ldd --version''], Linux))"
  by (simp add: target_cases [OF assms])

theorem target_resolution_witness:
  "cached_target new_builder = None
   \<and> darwin_host mac_host
   \<and> target mac_host new_builder = (new_builder\<lparr>cached_target := Some Darwin\<rparr>, [], Darwin)
   \<and> \<not> darwin_host alpine_host
   \<and> list_ex (\<lambda>out. includes_str out ''musl'') (probe_outputs alpine_host)
   \<and> snd (target alpine_host new_builder) = ([Exec ''ldd --version''], Alpine)
   \<and> \<not> darwin_host glibc_host
   \<and> \<not> list_ex (\<lambda>out. includes_str out ''musl'') (probe_outputs glibc_host)
   \<and> snd (target glibc_host new_builder) = ([Exec ''ldd --version''], Linux)"
proof -
  have c: "cached_target new_builder = None" by (simp add: new_builder_def)
  have m: "darwin_host mac_host" by (simp add: darwin_host_def mac_host_def)
  have a: "\<not> darwin_host alpine_host" by (simp add: darwin_host_def alpine_host_def)
  have a': "list_ex (\<lambda>out. includes_str out ''musl'') (probe_outputs alpine_host)"
    by code_simp
  have g: "\<not> darwin_host glibc_host" by (simp add: darwin_host_def glibc_host_def)
  have g': "\<not> list_ex (\<lambda>out. includes_str out ''musl'') (probe_outputs glibc_host)"
    by code_simp
  from target_resolution [OF c, of mac_host] target_resolution [OF c, of alpine_host]
    target_resolution [OF c, of glibc_host] c m a a' g g'
  show ?thesis by blast
qed

lemma target_effects:
  "fst (snd (target h b)) = [] \<or> fst (snd (target h b)) = [Exec ''ldd --version'']"
  by (auto simp: target_def Let_def split: option.splits exec_result.splits prod.splits)

lemma target_name_nonempty: "target_name t \<noteq> []"
  by (cases t) simp_all

lemma log_no_child: "filter spawns_child (log b m) = []"
  by (simp add: log_def spawns_child_def)

lemma arch_name_empty: "arch_name a = [] \<longleftrightarrow> a = []"
  by (auto simp: arch_name_def split: list.splits)

lemma doRun_missing:
  "\<not> truthy task \<Longrightarrow> doRun h b task = (b, [], Inl (Error ''No task provided''))"
  by (auto simp: doRun_def truthy_def split: option.splits)

lemma doRun_unrecognized:
  assumes "truthy task" "task \<notin> Some ` set task_names"
  shows "\<exists>b1 pre. doRun h b task = (b1, pre, Inl (Error (task_error h task)))
     \<and> (filter spawns_child pre = [] \<or> filter spawns_child pre = [Exec ''ldd --version''])"
proof -
  from assms obtain t where t: "task = Some t" "t \<noteq> []"
    "t \<noteq> ''watch''" "t \<noteq> ''binary''" "t \<noteq> ''package''" "t \<noteq> ''build''"
    by (cases task) (auto simp: truthy_def task_names_def)
  show ?thesis
  proof (cases "os_arch h = []")
    case True
    then show ?thesis using t
      by (simp add: doRun_def ensureArgument_def arch_name_empty task_error_def truthy_def)
  next
    case False
    obtain b1 fx2 tg where tg: "target h b = (b1, fx2, tg)" by (cases "target h b") auto
    have fx2: "fx2 = [] \<or> fx2 = [Exec ''ldd --version'']"
      using target_effects [of h b] tg by simp
    have "doRun h b task = (b1, log b (''arch is '' @ [CHR 0x22] @ arch_name (os_arch h) @ [CHR 0x22])
        @ fx2 @ log b1 (''target is '' @ [CHR 0x22] @ target_name tg @ [CHR 0x22]),
        Inl (Error (task_error h task)))"
      using t False tg
      by (simp add: doRun_def ensureArgument_def arch_name_empty task_error_def truthy_def
          target_name_nonempty Let_def)
    moreover have "filter spawns_child (log b (''arch is '' @ [CHR 0x22] @ arch_name (os_arch h) @ [CHR 0x22])
        @ fx2 @ log b1 (''target is '' @ [CHR 0x22] @ target_name tg @ [CHR 0x22])) = filter spawns_child fx2"
      by (simp add: log_no_child)
    moreover have "filter spawns_child fx2 = fx2"
      using fx2 by (auto simp: spawns_child_def)
    ultimately show ?thesis using fx2 by auto
  qed
qed

text \<open>
  C9, as the code has it: a task that is missing or is none of the four names enters no
  flow; the run prints the error and exits with code 1. A missing task fails before
  anything else is done. An unrecognized name fails after the architecture and the target
  are resolved, so the version probe may have been run by then; it is the only child
  process.
\<close>

theorem run_rejects_task:
  assumes "task \<notin> Some ` set task_names"
  shows "snd (snd (run h b task)) = None
     \<and> (\<exists>pre. fst (snd (run h b task)) = pre @ [ConsoleError [task_error h task], ProcessExit 1]
           \<and> (filter spawns_child pre = [] \<or> filter spawns_child pre = [Exec ''ldd --version''])
           \<and> (\<not> truthy task \<longrightarrow> pre = []))"
proof (cases "truthy task")
  case False
  then have "\<not> truthy task" by simp
  from doRun_missing [OF this] False show ?thesis
    by (auto simp: run_def task_error_def truthy_def split: option.splits)
next
  case True
  from doRun_unrecognized [OF True assms, of h "b\<lparr>currentTask := task\<rparr>"]
  obtain b1 pre where "doRun h (b\<lparr>currentTask := task\<rparr>) task = (b1, pre, Inl (Error (task_error h task)))"
    and "filter spawns_child pre = [] \<or> filter spawns_child pre = [Exec ''ldd --version'']"
    by blast
  with True show ?thesis by (simp add: run_def)
qed

theorem run_rejects_task_witness:
  "None \<notin> Some ` set task_names
   \<and> \<not> truthy None
   \<and> snd (snd (run glibc_host new_builder None)) = None
   \<and> fst (snd (run glibc_host new_builder None)) = [ConsoleError [''No task provided''], ProcessExit 1]"
proof -
  have h: "None \<notin> Some ` set task_names" by simp
  have t: "\<not> truthy None" by (simp add: truthy_def)
  have m: "task_error glibc_host None = ''No task provided''" by (simp add: task_error_def)
  from run_rejects_task [OF h, of glibc_host new_builder] t m h show ?thesis by auto
qed

text \<open>An unrecognized task on a Linux host: the probe is run before the run fails.\<close>

theorem run_unknown_task_probes:
  "filter spawns_child (fst (snd (run glibc_host new_builder (Some ''deploy'')))) = [Exec ''ldd --version'']
   \<and> snd (snd (run glibc_host new_builder (Some ''deploy''))) = None"
  by code_simp

section \<open>Properties of the watch task\<close>

subsection \<open>Shutdown\<close>

lemma cleanup_exit: "exit_code (cleanup b code s) = Some (or_zero code)"
  by (simp add: cleanup_def)

lemma then_jobs_exited: "exit_code s \<noteq> None \<Longrightarrow> then_jobs s = s"
  by (auto simp: then_jobs_def)

lemma step_exited: "exit_code s \<noteq> None \<Longrightarrow> step h b e s = s"
  by (simp add: step_def)

lemma run_events_exited: "exit_code s \<noteq> None \<Longrightarrow> run_events h b es s = s"
  unfolding run_events_def by (induction es) (simp_all add: step_exited)

lemma step_signal:
  "exit_code s = None \<Longrightarrow> sig = SIGINT \<or> sig = SIGTERM \<Longrightarrow> step h b sig s = cleanup b None s"
  by (auto simp: step_def on_event_def then_jobs_exited cleanup_exit)

lemma step_vscode_exit:
  "exit_code s = None \<Longrightarrow> Vscode \<in> set (exit_listeners s) \<Longrightarrow>
     step h b (VscodeExit code) s =
       cleanup b code (s\<lparr>effects := effects s @ log b ''vs code watcher terminated unexpectedly''\<rparr>)"
  by (simp add: step_def on_event_def then_jobs_exited cleanup_exit)

lemma step_tsc_exit:
  "exit_code s = None \<Longrightarrow> Tsc \<in> set (exit_listeners s) \<Longrightarrow>
     step h b (TscExit code) s =
       cleanup b code (s\<lparr>effects := effects s @ log b ''tsc terminated unexpectedly''\<rparr>)"
  by (simp add: step_def on_event_def then_jobs_exited cleanup_exit)

text \<open>
  C5: an interrupt or terminate signal, delivered while the process has not exited, runs
  \<open>cleanup\<close> with no code: the listeners of the editor watcher are removed and it is
  killed, then the same for the type checker, then for the server if there is one, and
  last the process exits with code 0.
\<close>

theorem signal_cleanup_order:
  assumes "exit_code s = None" and "sig = SIGINT \<or> sig = SIGTERM"
  shows "effects (step h b sig s) =
           effects s
           @ log b ''killing vs code watcher'' @ [RemoveAllListeners Vscode, Kill Vscode]
           @ log b ''killing tsc'' @ [RemoveAllListeners Tsc, Kill Tsc]
           @ (case server s of
                None \<Rightarrow> []
              | Some p \<Rightarrow> log b ''killing server'' @ [RemoveAllListeners (Server p), Kill (Server p)])
           @ log b ''killing bundler'' @ [ProcessExit 0]
     \<and> exit_code (step h b sig s) = Some 0"
  by (simp add: step_signal [OF assms] cleanup_def or_zero_def)

theorem signal_cleanup_order_witness:
  "exit_code (restartServer watch) = None
   \<and> filter (\<lambda>e. case e of Kill _ \<Rightarrow> True | RemoveAllListeners _ \<Rightarrow> True | ProcessExit _ \<Rightarrow> True | _ \<Rightarrow> False)
       (effects (step glibc_host watch_builder SIGINT (restartServer watch))) =
     [RemoveAllListeners Vscode, Kill Vscode, RemoveAllListeners Tsc, Kill Tsc,
      RemoveAllListeners (Server 0), Kill (Server 0), ProcessExit 0]
   \<and> exit_code (step glibc_host watch_builder SIGINT (restartServer watch)) = Some 0"
proof -
  have h: "exit_code (restartServer watch) = None" by (simp add: restartServer_def watch_def Let_def)
  have s: "server (restartServer watch) = Some 0" by (simp add: restartServer_def watch_def Let_def)
  have e: "effects (restartServer watch) = effects watch @ [Fork 0, ConsoleLog [''[server] spawned process '' @ showNat 0]]"
    by (simp add: restartServer_def watch_def Let_def)
  have ew: "effects watch = [Spawn ''yarn'' [''watch''],
      Spawn ''tsc'' [''--watch'', ''--pretty'', ''--preserveWatchOutput''], Bundle]"
    by (simp add: watch_def)
  note r = signal_cleanup_order [OF h, of SIGINT glibc_host watch_builder]
  from r have r1: "effects (step glibc_host watch_builder SIGINT (restartServer watch)) =
           effects (restartServer watch)
           @ log watch_builder ''killing vs code watcher'' @ [RemoveAllListeners Vscode, Kill Vscode]
           @ log watch_builder ''killing tsc'' @ [RemoveAllListeners Tsc, Kill Tsc]
           @ (case server (restartServer watch) of
                None \<Rightarrow> []
              | Some p \<Rightarrow> log watch_builder ''killing server'' @ [RemoveAllListeners (Server p), Kill (Server p)])
           @ log watch_builder ''killing bundler'' @ [ProcessExit 0]"
    by blast
  from r have r2: "exit_code (step glibc_host watch_builder SIGINT (restartServer watch)) = Some 0"
    by blast
  show ?thesis unfolding r1 r2 s e ew by (simp add: h log_def)
qed

lemma cleanup_detaches:
  "Vscode \<notin> set (exit_listeners (cleanup b code s))"
  "Tsc \<notin> set (exit_listeners (cleanup b code s))"
  by (simp_all add: cleanup_def)

text \<open>
  C6: shutdown runs once. The first signal performs the sequence of \<open>cleanup\<close>; it ends
  with \<open>process.exit\<close>, and that is the guard: whatever is delivered after it, a repeated
  signal or anything else, finds no process and adds no side effect. The same holds
  after any invocation of \<open>cleanup\<close>, and the exits of the watchers it has killed find
  no listener, since the listeners are removed before the kill.
\<close>

theorem shutdown_runs_once:
  assumes "exit_code s = None" and "sig = SIGINT \<or> sig = SIGTERM"
  shows "step h b sig s = cleanup b None s
     \<and> run_events h b (sig # es) s = cleanup b None s
     \<and> run_events h b es (cleanup b code t) = cleanup b code t
     \<and> on_event h b (VscodeExit c) (cleanup b code t) = cleanup b code t
     \<and> on_event h b (TscExit c) (cleanup b code t) = cleanup b code t"
proof -
  have a: "step h b sig s = cleanup b None s" by (rule step_signal [OF assms])
  have x: "exit_code (cleanup b code' u) \<noteq> None" for code' u by (simp add: cleanup_exit)
  have r: "run_events h b es (cleanup b code' u) = cleanup b code' u" for code' u
    by (rule run_events_exited [OF x])
  have "run_events h b (sig # es) s = run_events h b es (step h b sig s)"
    by (simp add: run_events_def)
  then have b: "run_events h b (sig # es) s = cleanup b None s"
    unfolding a by (simp add: r)
  have v: "on_event h b (VscodeExit c) (cleanup b code t) = cleanup b code t"
    using cleanup_detaches(1) [of b code t] by (simp add: on_event_def)
  have w: "on_event h b (TscExit c) (cleanup b code t) = cleanup b code t"
    using cleanup_detaches(2) [of b code t] by (simp add: on_event_def)
  from a b r v w show ?thesis by blast
qed

theorem shutdown_runs_once_witness:
  "exit_code watch = None
   \<and> filter (\<lambda>e. case e of Kill _ \<Rightarrow> True | ProcessExit _ \<Rightarrow> True | _ \<Rightarrow> False)
       (effects (run_events glibc_host watch_builder
          [SIGINT, SIGINT, SIGTERM, VscodeExit None, TscExit (Some 1)] watch)) =
     [Kill Vscode, Kill Tsc, ProcessExit 0]"
proof -
  have h: "exit_code watch = None" by (simp add: watch_def)
  have k: "filter (\<lambda>e. case e of Kill _ \<Rightarrow> True | ProcessExit _ \<Rightarrow> True | _ \<Rightarrow> False)
       (effects (cleanup watch_builder None watch)) = [Kill Vscode, Kill Tsc, ProcessExit 0]"
    by (simp add: cleanup_def watch_def log_def or_zero_def)
  from shutdown_runs_once [OF h, of SIGINT glibc_host watch_builder
      "[SIGINT, SIGTERM, VscodeExit None, TscExit (Some 1)]"]
  have "run_events glibc_host watch_builder
          [SIGINT, SIGINT, SIGTERM, VscodeExit None, TscExit (Some 1)] watch =
        cleanup watch_builder None watch"
    by blast
  with h k show ?thesis by simp
qed

text \<open>
  C7, as the code has it: when a watcher exits while its listener is attached, whatever
  its exit code, the message is logged and \<open>cleanup\<close> is invoked with the exit code of
  the child; the run ends with that code, which is 0 when the code of the child is 0 or
  \<open>null\<close>.
\<close>

theorem watcher_exit_is_fatal:
  assumes "exit_code s = None"
  shows "(Vscode \<in> set (exit_listeners s) \<longrightarrow>
            step h b (VscodeExit code) s =
              cleanup b code
                (s\<lparr>effects := effects s @ log b ''vs code watcher terminated unexpectedly''\<rparr>)
            \<and> effects (step h b (VscodeExit code) s) =
                effects s @ log b ''vs code watcher terminated unexpectedly''
                @ log b ''killing vs code watcher'' @ [RemoveAllListeners Vscode, Kill Vscode]
                @ log b ''killing tsc'' @ [RemoveAllListeners Tsc, Kill Tsc]
                @ (case server s of
                     None \<Rightarrow> []
                   | Some p \<Rightarrow> log b ''killing server''
                               @ [RemoveAllListeners (Server p), Kill (Server p)])
                @ log b ''killing bundler''
                @ [ProcessExit (case code of None \<Rightarrow> 0 | Some c \<Rightarrow> c)]
            \<and> exit_code (step h b (VscodeExit code) s) = Some (case code of None \<Rightarrow> 0 | Some c \<Rightarrow> c))
     \<and> (Tsc \<in> set (exit_listeners s) \<longrightarrow>
            step h b (TscExit code) s =
              cleanup b code (s\<lparr>effects := effects s @ log b ''tsc terminated unexpectedly''\<rparr>)
            \<and> effects (step h b (TscExit code) s) =
                effects s @ log b ''tsc terminated unexpectedly''
                @ log b ''killing vs code watcher'' @ [RemoveAllListeners Vscode, Kill Vscode]
                @ log b ''killing tsc'' @ [RemoveAllListeners Tsc, Kill Tsc]
                @ (case server s of
                     None \<Rightarrow> []
                   | Some p \<Rightarrow> log b ''killing server''
                               @ [RemoveAllListeners (Server p), Kill (Server p)])
                @ log b ''killing bundler''
                @ [ProcessExit (case code of None \<Rightarrow> 0 | Some c \<Rightarrow> c)]
            \<and> exit_code (step h b (TscExit code) s) = Some (case code of None \<Rightarrow> 0 | Some c \<Rightarrow> c))"
  using assms by (simp add: step_vscode_exit step_tsc_exit) (simp add: cleanup_def or_zero_def)

theorem watcher_exit_is_fatal_witness:
  "exit_code watch = None \<and> Vscode \<in> set (exit_listeners watch)
   \<and> Tsc \<in> set (exit_listeners watch)
   \<and> exit_code (step glibc_host watch_builder (VscodeExit (Some 2)) watch) = Some 2
   \<and> exit_code (step glibc_host watch_builder (TscExit None) watch) = Some 0
   \<and> StdoutWrite ''[watch] tsc terminated unexpectedly''
       \<in> set (effects (step glibc_host watch_builder (TscExit None) watch))"
proof -
  have h: "exit_code watch = None" by (simp add: watch_def)
  have v: "Vscode \<in> set (exit_listeners watch)" "Tsc \<in> set (exit_listeners watch)"
    by (simp_all add: watch_def)
  from watcher_exit_is_fatal [OF h, of glibc_host watch_builder "Some 2"] v
  have "exit_code (step glibc_host watch_builder (VscodeExit (Some 2)) watch) =
      Some (case Some 2 of None \<Rightarrow> 0 | Some c \<Rightarrow> c)"
    by blast
  then have a: "exit_code (step glibc_host watch_builder (VscodeExit (Some 2)) watch) = Some 2"
    by simp
  note r = watcher_exit_is_fatal [OF h, of glibc_host watch_builder None]
  from r v have "exit_code (step glibc_host watch_builder (TscExit None) watch) =
      Some (case None of None \<Rightarrow> 0 | Some c \<Rightarrow> c)"
    by blast
  then have b: "exit_code (step glibc_host watch_builder (TscExit None) watch) = Some 0"
    by simp
  from r v have "effects (step glibc_host watch_builder (TscExit None) watch) =
                effects watch @ log watch_builder ''tsc terminated unexpectedly''
                @ log watch_builder ''killing vs code watcher'' @ [RemoveAllListeners Vscode, Kill Vscode]
                @ log watch_builder ''killing tsc'' @ [RemoveAllListeners Tsc, Kill Tsc]
                @ (case server watch of
                     None \<Rightarrow> []
                   | Some p \<Rightarrow> log watch_builder ''killing server''
                               @ [RemoveAllListeners (Server p), Kill (Server p)])
                @ log watch_builder ''killing bundler''
                @ [ProcessExit (case None of None \<Rightarrow> 0 | Some c \<Rightarrow> c)]"
    by blast
  then have c: "StdoutWrite ''[watch] tsc terminated unexpectedly''
       \<in> set (effects (step glibc_host watch_builder (TscExit None) watch))"
    by (simp add: log_def watch_builder_def)
  from h v a b c show ?thesis by blast
qed

text \<open>
  The exit code of the run is the child's: 0 for a watcher that exits with code 0 or is
  ended by a signal (code \<open>null\<close>), 2 for one that exits with code 2.
\<close>

theorem watcher_exit_code_passed_on:
  "exit_code (step glibc_host watch_builder (TscExit (Some 0)) watch) = Some 0
   \<and> exit_code (step glibc_host watch_builder (VscodeExit None) watch) = Some 0
   \<and> exit_code (step glibc_host watch_builder (TscExit (Some 2)) watch) = Some 2
   \<and> StdoutWrite ''[watch] tsc terminated unexpectedly''
       \<in> set (effects (step glibc_host watch_builder (TscExit (Some 0)) watch))"
  by code_simp

subsection \<open>Chunks and lines\<close>

lemma on_data_lines:
  "on_data cb d (buffer, st) =
     (last (split_nl (buffer @ d)),
      fold (\<lambda>l. cb (replace_re l) l) (butlast (split_nl (buffer @ d))) st)"
proof -
  have ne: "split_nl (buffer @ d) \<noteq> []" by (rule split_nl_nonempty)
  have i: "split_nl (buffer @ d) ! (length (split_nl (buffer @ d)) - Suc 0) = last (split_nl (buffer @ d))"
    using ne by (simp add: last_conv_nth)
  have t: "take (length (split_nl (buffer @ d)) - Suc 0) (split_nl (buffer @ d)) = butlast (split_nl (buffer @ d))"
    by (simp add: butlast_conv_take)
  show ?thesis unfolding on_data_def by (simp add: Let_def i t)
qed

lemma split_nl_plain: "newline \<notin> set s \<Longrightarrow> split_nl s = [s]"
  by (induction s) auto

lemma fold_on_data_plain:
  assumes "newline \<notin> set buffer"
  shows "fold (on_data cb) chunks (buffer, st) =
     (last (split_nl (buffer @ concat chunks)),
      fold (\<lambda>l. cb (replace_re l) l) (butlast (split_nl (buffer @ concat chunks))) st)"
  using fold_on_data [of cb chunks buffer st] by (simp add: split_nl_plain [OF assms])

lemma run_events_Cons: "run_events h b (e # es) s = run_events h b es (step h b e s)"
  by (simp add: run_events_def)

lemma run_events_snoc: "run_events h b (es @ [e]) s = step h b e (run_events h b es s)"
  by (simp add: run_events_def)

lemma run_events_running:
  "exit_code (run_events h b (e # es) s) = None \<Longrightarrow>
     exit_code s = None \<and> exit_code (step h b e s) = None"
  by (metis run_events_Cons run_events_exited step_exited)

subsection \<open>The editor watcher\<close>

lemma patches_append: "patches (xs @ ys) = patches xs + patches ys"
  by (simp add: patches_def)

lemma forks_append: "forks (xs @ ys) = forks xs + forks ys"
  by (simp add: forks_def)

lemma forks_Cons [simp]:
  "forks [] = 0"
  "forks (e # fx) = (case e of Fork _ \<Rightarrow> 1 | _ \<Rightarrow> 0) + forks fx"
  by (simp_all add: forks_def split: effect.splits)

lemma patches_Cons [simp]:
  "patches [] = 0"
  "patches (e # fx) = (if e = Exec ''yarn patch:generate'' then 1 else 0) + patches fx"
  by (simp_all add: patches_def)

lemma patches_log [simp]: "patches (log b m) = 0"
  by (simp add: patches_def log_def)

lemma forks_log [simp]: "forks (log b m) = 0"
  by (simp add: forks_def log_def)

lemma vscode_line_fields [simp]:
  "exit_code (vscode_line h l orig s) = exit_code s"
  "bundle_settled (vscode_line h l orig s) = bundle_settled s"
  "bundle_then (vscode_line h l orig s) = bundle_then s"
  "server (vscode_line h l orig s) = server s"
  "running (vscode_line h l orig s) = running s"
  "tsc_buffer (vscode_line h l orig s) = tsc_buffer s"
  "vscode_buffer (vscode_line h l orig s) = vscode_buffer s"
  "forks (effects (vscode_line h l orig s)) = forks (effects s)"
  by (simp_all add: vscode_line_def Let_def forks_append)

lemma fold_vscode_fields [simp]:
  "exit_code (fold (\<lambda>l. vscode_line h (f l) l) ls s) = exit_code s"
  "bundle_settled (fold (\<lambda>l. vscode_line h (f l) l) ls s) = bundle_settled s"
  "bundle_then (fold (\<lambda>l. vscode_line h (f l) l) ls s) = bundle_then s"
  "server (fold (\<lambda>l. vscode_line h (f l) l) ls s) = server s"
  "running (fold (\<lambda>l. vscode_line h (f l) l) ls s) = running s"
  "tsc_buffer (fold (\<lambda>l. vscode_line h (f l) l) ls s) = tsc_buffer s"
  "vscode_buffer (fold (\<lambda>l. vscode_line h (f l) l) ls s) = vscode_buffer s"
  "forks (effects (fold (\<lambda>l. vscode_line h (f l) l) ls s)) = forks (effects s)"
  by (induction ls arbitrary: s) simp_all

lemma vscode_line_count:
  "(startingVscode (vscode_line h l orig s), patches (effects (vscode_line h l orig s))) =
     vscode_count h l orig (startingVscode s, patches (effects s))"
  by (simp add: vscode_line_def vscode_count_def Let_def patches_append)

lemma fold_vscode_count:
  "(startingVscode (fold (\<lambda>l. vscode_line h (f l) l) ls s),
    patches (effects (fold (\<lambda>l. vscode_line h (f l) l) ls s))) =
     fold (\<lambda>l. vscode_count h (f l) l) ls (startingVscode s, patches (effects s))"
  by (induction ls arbitrary: s) (simp_all add: vscode_line_count)

lemma tsc_line_fields [simp]:
  "exit_code (tsc_line l orig s) = exit_code s"
  "bundle_settled (tsc_line l orig s) = bundle_settled s"
  "server (tsc_line l orig s) = server s"
  "running (tsc_line l orig s) = running s"
  "vscode_buffer (tsc_line l orig s) = vscode_buffer s"
  "tsc_buffer (tsc_line l orig s) = tsc_buffer s"
  "startingVscode (tsc_line l orig s) = startingVscode s"
  "forks (effects (tsc_line l orig s)) = forks (effects s)"
  "patches (effects (tsc_line l orig s)) = patches (effects s)"
  "bundle_then (tsc_line l orig s) = tsc_count l orig (bundle_then s)"
  by (simp_all add: tsc_line_def tsc_count_def Let_def forks_append patches_append)

lemma fold_tsc_fields [simp]:
  "exit_code (fold (\<lambda>l. tsc_line (f l) l) ls s) = exit_code s"
  "bundle_settled (fold (\<lambda>l. tsc_line (f l) l) ls s) = bundle_settled s"
  "server (fold (\<lambda>l. tsc_line (f l) l) ls s) = server s"
  "running (fold (\<lambda>l. tsc_line (f l) l) ls s) = running s"
  "vscode_buffer (fold (\<lambda>l. tsc_line (f l) l) ls s) = vscode_buffer s"
  "tsc_buffer (fold (\<lambda>l. tsc_line (f l) l) ls s) = tsc_buffer s"
  "startingVscode (fold (\<lambda>l. tsc_line (f l) l) ls s) = startingVscode s"
  "forks (effects (fold (\<lambda>l. tsc_line (f l) l) ls s)) = forks (effects s)"
  "patches (effects (fold (\<lambda>l. tsc_line (f l) l) ls s)) = patches (effects s)"
  "bundle_then (fold (\<lambda>l. tsc_line (f l) l) ls s) =
     fold (\<lambda>l. tsc_count (f l) l) ls (bundle_then s)"
  by (induction ls arbitrary: s) simp_all

lemma restartServer_fields [simp]:
  "forks (effects (restartServer s)) = Suc (forks (effects s))"
  "patches (effects (restartServer s)) = patches (effects s)"
  "exit_code (restartServer s) = exit_code s"
  "bundle_settled (restartServer s) = bundle_settled s"
  "bundle_then (restartServer s) = bundle_then s"
  "vscode_buffer (restartServer s) = vscode_buffer s"
  "tsc_buffer (restartServer s) = tsc_buffer s"
  "startingVscode (restartServer s) = startingVscode s"
  by (simp_all add: restartServer_def Let_def forks_append patches_append)
     (simp_all add: forks_def patches_def split: option.splits)

lemma restarts_fields [simp]:
  "forks (effects ((restartServer ^^ n) s)) = forks (effects s) + n"
  "patches (effects ((restartServer ^^ n) s)) = patches (effects s)"
  "exit_code ((restartServer ^^ n) s) = exit_code s"
  "bundle_settled ((restartServer ^^ n) s) = bundle_settled s"
  "bundle_then ((restartServer ^^ n) s) = bundle_then s"
  "vscode_buffer ((restartServer ^^ n) s) = vscode_buffer s"
  "tsc_buffer ((restartServer ^^ n) s) = tsc_buffer s"
  "startingVscode ((restartServer ^^ n) s) = startingVscode s"
  by (induction n) simp_all

lemma cleanup_fields [simp]:
  "forks (effects (cleanup b code s)) = forks (effects s)"
  "patches (effects (cleanup b code s)) = patches (effects s)"
  "bundle_settled (cleanup b code s) = bundle_settled s"
  "bundle_then (cleanup b code s) = bundle_then s"
  "vscode_buffer (cleanup b code s) = vscode_buffer s"
  "tsc_buffer (cleanup b code s) = tsc_buffer s"
  "startingVscode (cleanup b code s) = startingVscode s"
  by (simp_all add: cleanup_def forks_append patches_append split: option.splits)

lemma then_jobs_vscode_view: "vscode_view (then_jobs s) = vscode_view s"
  by (simp add: then_jobs_def vscode_view_def)

lemma on_event_vscode_view:
  "vscode_view (on_event h b e s) =
     (case e of VscodeStdout d \<Rightarrow> on_data (vscode_count h) d (vscode_view s) | _ \<Rightarrow> vscode_view s)"
proof (cases e)
  case (VscodeStdout d)
  then show ?thesis
    using fold_vscode_count [of h replace_re "butlast (split_nl (vscode_buffer s @ d))" s]
    by (simp add: on_event_def vscode_view_def on_data_lines)
qed (simp_all add: on_event_def vscode_view_def on_data_lines patches_append)

lemma step_vscode_view:
  "exit_code s = None \<Longrightarrow>
     vscode_view (step h b e s) =
       (case e of VscodeStdout d \<Rightarrow> on_data (vscode_count h) d (vscode_view s) | _ \<Rightarrow> vscode_view s)"
  by (simp add: step_def then_jobs_vscode_view on_event_vscode_view)

lemma run_vscode_view:
  "exit_code (run_events h b es s) = None \<Longrightarrow>
     vscode_view (run_events h b es s) = fold (on_data (vscode_count h)) (vscode_chunks es) (vscode_view s)"
proof (induction es arbitrary: s)
  case Nil
  then show ?case by (simp add: run_events_def vscode_chunks_def)
next
  case (Cons e es)
  from run_events_running [OF Cons.prems] have r: "exit_code s = None" by simp
  from Cons.prems have "exit_code (run_events h b es (step h b e s)) = None"
    by (simp add: run_events_Cons)
  from Cons.IH [OF this] show ?case
    by (cases e) (simp_all add: run_events_Cons step_vscode_view [OF r] vscode_chunks_def)
qed

lemma fold_vscode_count_lines:
  "snd (fold (\<lambda>l. vscode_count h (f l) l) ls (starting, n)) =
     n + (if truthy (env_AUTO_PATCH h)
          then length (filter (\<lambda>l. includes_str (f l) ''Finished compilation'')
                 (if starting then ls
                  else drop 1 (dropWhile (\<lambda>l. \<not> includes_str (f l) ''Starting watch-client'') ls)))
          else 0)"
  by (induction ls arbitrary: starting n) (auto simp: vscode_count_def)

text \<open>
  C2, as the code has it: the flag is armed by the first line with the arming marker
  and never disarmed, and from then on every line with the finished marker runs the
  patch command, if the feature is enabled: in a run that has not exited, N such lines
  after the arming line have run it N times, and no line before the arming line has,
  whatever else happened in between.
\<close>

theorem auto_patch_fires_per_marker:
  assumes "exit_code (run_events h b es watch) = None"
  shows "patches (effects (run_events h b es watch)) =
     (if truthy (env_AUTO_PATCH h)
      then length (filter (\<lambda>l. includes_str (replace_re l) ''Finished compilation'')
             (drop 1 (dropWhile (\<lambda>l. \<not> includes_str (replace_re l) ''Starting watch-client'')
                        (butlast (split_nl (concat (vscode_chunks es)))))))
      else 0)"
proof -
  have w: "vscode_view watch = ([], False, 0)"
    by (simp add: vscode_view_def watch_def patches_def)
  have "vscode_view (run_events h b es watch) =
      (last (split_nl (concat (vscode_chunks es))),
       fold (\<lambda>l. vscode_count h (replace_re l) l) (butlast (split_nl (concat (vscode_chunks es))))
         (False, 0))"
    unfolding run_vscode_view [OF assms] w
    using fold_on_data_plain [of "[]" "vscode_count h" "vscode_chunks es" "(False, 0)"] by simp
  then have "(startingVscode (run_events h b es watch), patches (effects (run_events h b es watch))) =
      fold (\<lambda>l. vscode_count h (replace_re l) l) (butlast (split_nl (concat (vscode_chunks es))))
         (False, 0)"
    by (simp add: vscode_view_def)
  then have "patches (effects (run_events h b es watch)) =
      snd (fold (\<lambda>l. vscode_count h (replace_re l) l) (butlast (split_nl (concat (vscode_chunks es))))
         (False, 0))"
    by (metis snd_conv)
  then show ?thesis by (simp add: fold_vscode_count_lines)
qed


theorem auto_patch_fires_per_marker_witness:
  "exit_code (run_events glibc_host watch_builder
      [VscodeStdout (''Finished compilation'' @ [newline] @ ''Starting watch-client'' @ [newline]),
       BuildEnd,
       VscodeStdout (''Finished compilation'' @ [newline] @ ''Finished''),
       VscodeStdout ('' compilation'' @ [newline])] watch) = None
   \<and> truthy (env_AUTO_PATCH glibc_host)
   \<and> patches (effects (run_events glibc_host watch_builder
      [VscodeStdout (''Finished compilation'' @ [newline] @ ''Starting watch-client'' @ [newline]),
       BuildEnd,
       VscodeStdout (''Finished compilation'' @ [newline] @ ''Finished''),
       VscodeStdout ('' compilation'' @ [newline])] watch)) = 2"
proof -
  let ?es = "[VscodeStdout (''Finished compilation'' @ [newline] @ ''Starting watch-client'' @ [newline]),
       BuildEnd,
       VscodeStdout (''Finished compilation'' @ [newline] @ ''Finished''),
       VscodeStdout ('' compilation'' @ [newline])]"
  have h: "exit_code (run_events glibc_host watch_builder ?es watch) = None"
    by code_simp
  have t: "truthy (env_AUTO_PATCH glibc_host)"
    by code_simp
  have n: "(if truthy (env_AUTO_PATCH glibc_host)
      then length (filter (\<lambda>l. includes_str (replace_re l) ''Finished compilation'')
             (drop 1 (dropWhile (\<lambda>l. \<not> includes_str (replace_re l) ''Starting watch-client'')
                        (butlast (split_nl (concat (vscode_chunks ?es)))))))
      else 0) = 2"
    by code_simp
  from auto_patch_fires_per_marker [OF h] n
  have "patches (effects (run_events glibc_host watch_builder ?es watch)) = 2"
    by (rule trans)
  with h t show ?thesis by blast
qed

text \<open>Two finished markers after the arming marker: the patch command runs twice.\<close>

theorem auto_patch_fires_twice:
  "patches (effects (run_events glibc_host watch_builder
      [VscodeStdout (''Starting watch-client'' @ [newline]),
       VscodeStdout (''Finished compilation'' @ [newline]),
       VscodeStdout (''Finished compilation'' @ [newline])] watch)) = 2
   \<and> truthy (env_AUTO_PATCH glibc_host)"
  by code_simp

subsection \<open>The type checker\<close>

lemma then_jobs_unsettled: "\<not> bundle_settled s \<Longrightarrow> then_jobs s = s"
  by (simp add: then_jobs_def)

lemma on_event_unsettled:
  assumes "e \<noteq> BundleResolved"
  shows "bundle_settled (on_event h b e s) = bundle_settled s"
    and "forks (effects (on_event h b e s)) = forks (effects s)"
    and "tsc_view (on_event h b e s) =
       (case e of TscStdout d \<Rightarrow> on_data tsc_count d (tsc_view s) | _ \<Rightarrow> tsc_view s)"
  using assms
  by (cases e; simp add: on_event_def tsc_view_def on_data_lines forks_append)+

lemma step_unsettled:
  assumes "\<not> bundle_settled s" and "e \<noteq> BundleResolved"
  shows "\<not> bundle_settled (step h b e s)"
    and "forks (effects (step h b e s)) = forks (effects s)"
    and "exit_code s = None \<Longrightarrow> tsc_view (step h b e s) =
       (case e of TscStdout d \<Rightarrow> on_data tsc_count d (tsc_view s) | _ \<Rightarrow> tsc_view s)"
  using assms on_event_unsettled [OF assms(2), of h b s]
  by (simp_all add: step_def then_jobs_unsettled)

lemma run_unsettled:
  assumes "\<not> bundle_settled s" and "BundleResolved \<notin> set es"
  shows "\<not> bundle_settled (run_events h b es s) \<and>
     forks (effects (run_events h b es s)) = forks (effects s)"
  using assms
proof (induction es arbitrary: s)
  case Nil
  then show ?case by (simp add: run_events_def)
next
  case (Cons e es)
  then have e: "e \<noteq> BundleResolved" and es: "BundleResolved \<notin> set es" by auto
  from Cons.IH [OF step_unsettled(1) [OF Cons.prems(1) e] es, of h b]
    step_unsettled(2) [OF Cons.prems(1) e, of h b]
  show ?case by (simp add: run_events_Cons)
qed

lemma run_tsc_view:
  assumes "\<not> bundle_settled s" and "BundleResolved \<notin> set es"
    and "exit_code (run_events h b es s) = None"
  shows "tsc_view (run_events h b es s) = fold (on_data tsc_count) (tsc_chunks es) (tsc_view s)"
  using assms
proof (induction es arbitrary: s)
  case Nil
  then show ?case by (simp add: run_events_def tsc_chunks_def)
next
  case (Cons e es)
  then have e: "e \<noteq> BundleResolved" and es: "BundleResolved \<notin> set es" by auto
  from run_events_running [OF Cons.prems(3)] have r: "exit_code s = None" by simp
  from Cons.prems(3) have x: "exit_code (run_events h b es (step h b e s)) = None"
    by (simp add: run_events_Cons)
  from Cons.IH [OF step_unsettled(1) [OF Cons.prems(1) e] es x]
    step_unsettled(3) [OF Cons.prems(1) e r, of h b]
  show ?case
    by (cases e) (simp_all add: run_events_Cons tsc_chunks_def)
qed

lemma fold_tsc_count_lines:
  "fold (\<lambda>l. tsc_count (f l) l) ls n =
     n + length (filter (\<lambda>l. includes_str (f l) ''Watching for file changes'') ls)"
  by (induction ls arbitrary: n) (simp_all add: tsc_count_def)

lemma step_bundle_resolved:
  "exit_code s = None \<Longrightarrow>
     step h b BundleResolved s =
       (restartServer ^^ bundle_then s) (s\<lparr>bundle_settled := True, bundle_then := 0\<rparr>)"
  by (simp add: step_def on_event_def then_jobs_def)

lemma step_tsc_settled:
  assumes "bundle_settled t" and "exit_code t = None"
  shows "forks (effects (step h b (TscStdout d) t)) =
     forks (effects t) + bundle_then t
     + length (filter (\<lambda>l. includes_str (replace_re l) ''Watching for file changes'')
         (butlast (split_nl (tsc_buffer t @ d))))"
  using assms
  by (simp add: step_def on_event_def on_data_lines then_jobs_def fold_tsc_count_lines)

text \<open>
  C10, as the code has it: the script waits for one bundler operation only, the first,
  whose promise it holds. As long as \<open>bundle\<close> has not resolved, no server is forked,
  whatever the type checker writes and whatever else happens; when \<open>bundle\<close> then
  resolves in a run that has not exited, one restart is made for each marker line the
  type checker has written (and for each reaction that was waiting before). Once
  \<open>bundle\<close> has resolved, the marker lines of a chunk restart the server as soon as the
  chunk is handled, one restart for each, whether a rebuild is in flight or not.
\<close>

theorem restart_waits_for_bundle:
  assumes "\<not> bundle_settled s" and "BundleResolved \<notin> set es"
  shows "forks (effects (run_events h b es s)) = forks (effects s)
     \<and> (exit_code (run_events h b es s) = None \<and> newline \<notin> set (tsc_buffer s) \<longrightarrow>
          forks (effects (run_events h b (es @ [BundleResolved]) s)) =
            forks (effects s) + bundle_then s
            + length (filter (\<lambda>l. includes_str (replace_re l) ''Watching for file changes'')
                (butlast (split_nl (tsc_buffer s @ concat (tsc_chunks es))))))
     \<and> (bundle_settled t \<and> exit_code t = None \<longrightarrow>
          forks (effects (step h b (TscStdout d) t)) =
            forks (effects t) + bundle_then t
            + length (filter (\<lambda>l. includes_str (replace_re l) ''Watching for file changes'')
                (butlast (split_nl (tsc_buffer t @ d)))))"
proof (intro conjI impI)
  show a: "forks (effects (run_events h b es s)) = forks (effects s)"
    using run_unsettled [OF assms] by simp
  {
    assume "exit_code (run_events h b es s) = None \<and> newline \<notin> set (tsc_buffer s)"
    then have x: "exit_code (run_events h b es s) = None" and n: "newline \<notin> set (tsc_buffer s)"
      by simp_all
    have "tsc_view (run_events h b es s) =
        (last (split_nl (tsc_buffer s @ concat (tsc_chunks es))),
         fold (\<lambda>l. tsc_count (replace_re l) l)
           (butlast (split_nl (tsc_buffer s @ concat (tsc_chunks es)))) (bundle_then s))"
      unfolding run_tsc_view [OF assms x]
      by (simp add: tsc_view_def fold_on_data_plain [OF n])
    then have t: "bundle_then (run_events h b es s) =
        bundle_then s + length (filter (\<lambda>l. includes_str (replace_re l) ''Watching for file changes'')
                  (butlast (split_nl (tsc_buffer s @ concat (tsc_chunks es)))))"
      by (simp add: tsc_view_def fold_tsc_count_lines)
    show "forks (effects (run_events h b (es @ [BundleResolved]) s)) =
              forks (effects s) + bundle_then s
              + length (filter (\<lambda>l. includes_str (replace_re l) ''Watching for file changes'')
                  (butlast (split_nl (tsc_buffer s @ concat (tsc_chunks es)))))"
      unfolding run_events_snoc step_bundle_resolved [OF x] by (simp add: a t)
  }
  {
    assume "bundle_settled t \<and> exit_code t = None"
    then show "forks (effects (step h b (TscStdout d) t)) =
            forks (effects t) + bundle_then t
            + length (filter (\<lambda>l. includes_str (replace_re l) ''Watching for file changes'')
                (butlast (split_nl (tsc_buffer t @ d))))"
      using step_tsc_settled [of t h b d] by simp
  }
qed

theorem restart_waits_for_bundle_witness:
  "\<not> bundle_settled watch
   \<and> BundleResolved \<notin> set [TscStdout ''Watching for '', BuildEnd, TscStdout (''file changes.'' @ [newline])]
   \<and> exit_code (run_events glibc_host watch_builder
        [TscStdout ''Watching for '', BuildEnd, TscStdout (''file changes.'' @ [newline])] watch) = None
   \<and> newline \<notin> set (tsc_buffer watch)
   \<and> forks (effects (run_events glibc_host watch_builder
        [TscStdout ''Watching for '', BuildEnd, TscStdout (''file changes.'' @ [newline])] watch)) = 0
   \<and> forks (effects (run_events glibc_host watch_builder
        ([TscStdout ''Watching for '', BuildEnd, TscStdout (''file changes.'' @ [newline])]
           @ [BundleResolved]) watch)) = 1
   \<and> bundle_settled (run_events glibc_host watch_builder [BuildEnd, BundleResolved] watch)
   \<and> exit_code (run_events glibc_host watch_builder [BuildEnd, BundleResolved] watch) = None
   \<and> forks (effects (step glibc_host watch_builder
        (TscStdout (''Watching for file changes.'' @ [newline]))
        (run_events glibc_host watch_builder [BuildEnd, BundleResolved] watch))) = 1"
proof -
  let ?es = "[TscStdout ''Watching for '', BuildEnd, TscStdout (''file changes.'' @ [newline])]"
  let ?t = "run_events glibc_host watch_builder [BuildEnd, BundleResolved] watch"
  let ?d = "''Watching for file changes.'' @ [newline]"
  have h: "\<not> bundle_settled watch" "BundleResolved \<notin> set ?es"
    by (simp_all add: watch_def)
  have x: "exit_code (run_events glibc_host watch_builder ?es watch) = None"
    by code_simp
  have n: "newline \<notin> set (tsc_buffer watch)" by (simp add: watch_def)
  have f: "forks (effects watch) = 0" "bundle_then watch = 0"
    by (simp_all add: watch_def)
  have c: "length (filter (\<lambda>l. includes_str (replace_re l) ''Watching for file changes'')
             (butlast (split_nl (tsc_buffer watch @ concat (tsc_chunks ?es))))) = 1"
    by code_simp
  have ts: "bundle_settled ?t" by code_simp
  have tx: "exit_code ?t = None" by code_simp
  have tf: "forks (effects ?t) + bundle_then ?t
      + length (filter (\<lambda>l. includes_str (replace_re l) ''Watching for file changes'')
          (butlast (split_nl (tsc_buffer ?t @ ?d)))) = 1"
    by code_simp
  note r = restart_waits_for_bundle [OF h, of glibc_host watch_builder ?t ?d]
  from r have a: "forks (effects (run_events glibc_host watch_builder ?es watch)) = 0"
    unfolding f by blast
  from r x n have "forks (effects (run_events glibc_host watch_builder (?es @ [BundleResolved]) watch)) =
      forks (effects watch) + bundle_then watch
      + length (filter (\<lambda>l. includes_str (replace_re l) ''Watching for file changes'')
             (butlast (split_nl (tsc_buffer watch @ concat (tsc_chunks ?es)))))"
    by blast
  then have b: "forks (effects (run_events glibc_host watch_builder (?es @ [BundleResolved]) watch)) = 1"
    unfolding f c by simp
  from r ts tx have "forks (effects (step glibc_host watch_builder (TscStdout ?d) ?t)) =
      forks (effects ?t) + bundle_then ?t
      + length (filter (\<lambda>l. includes_str (replace_re l) ''Watching for file changes'')
          (butlast (split_nl (tsc_buffer ?t @ ?d))))"
    by blast
  then have e: "forks (effects (step glibc_host watch_builder (TscStdout ?d) ?t)) = 1"
    unfolding tf .
  from h x n a b ts tx e show ?thesis by blast
qed

text \<open>
  The first bundle has ended and its promise has resolved; the bundler starts a rebuild.
  While the rebuild is in flight the type checker writes the marker: the server is
  forked at once, with the bundler still busy.
\<close>

theorem restart_during_rebuild:
  "bundler_busy (run_events glibc_host watch_builder [BuildEnd, BundleResolved, BuildStart] watch)
   \<and> forks (effects (run_events glibc_host watch_builder
        [BuildEnd, BundleResolved, BuildStart] watch)) = 0
   \<and> bundler_busy (run_events glibc_host watch_builder
        [BuildEnd, BundleResolved, BuildStart,
         TscStdout (''Watching for file changes.'' @ [newline])] watch)
   \<and> forks (effects (run_events glibc_host watch_builder
        [BuildEnd, BundleResolved, BuildStart,
         TscStdout (''Watching for file changes.'' @ [newline])] watch)) = 1"
  by code_simp

subsection \<open>Servers\<close>

lemma others_killed_mono:
  assumes "others_killed s" and "server t = server s" and "set (running t) \<subseteq> set (running s)"
    and "set (effects s) \<subseteq> set (effects t)"
  shows "others_killed t"
  using assms unfolding others_killed_def by (metis subsetD)

lemma restartServer_others_killed: "others_killed s \<Longrightarrow> others_killed (restartServer s)"
  by (auto simp: others_killed_def restartServer_def Let_def split: option.splits)

lemma restarts_others_killed: "others_killed s \<Longrightarrow> others_killed ((restartServer ^^ n) s)"
  by (induction n) (simp_all add: restartServer_others_killed)

lemma then_jobs_others_killed: "others_killed s \<Longrightarrow> others_killed (then_jobs s)"
proof -
  assume a: "others_killed s"
  then have "others_killed (s\<lparr>bundle_then := 0\<rparr>)" by (simp add: others_killed_def)
  then show ?thesis using a by (simp add: then_jobs_def restarts_others_killed)
qed

lemma vscode_line_effects: "set (effects s) \<subseteq> set (effects (vscode_line h l orig s))"
  by (auto simp: vscode_line_def Let_def)

lemma fold_vscode_effects:
  "set (effects s) \<subseteq> set (effects (fold (\<lambda>l. vscode_line h (f l) l) ls s))"
proof (induction ls arbitrary: s)
  case Nil
  then show ?case by simp
next
  case (Cons l ls)
  show ?case using vscode_line_effects [of s h "f l" l] Cons [of "vscode_line h (f l) l s"]
    by auto
qed

lemma tsc_line_effects: "set (effects s) \<subseteq> set (effects (tsc_line l orig s))"
  by (auto simp: tsc_line_def Let_def)

lemma fold_tsc_effects:
  "set (effects s) \<subseteq> set (effects (fold (\<lambda>l. tsc_line (f l) l) ls s))"
proof (induction ls arbitrary: s)
  case Nil
  then show ?case by simp
next
  case (Cons l ls)
  show ?case using tsc_line_effects [of s "f l" l] Cons [of "tsc_line (f l) l s"]
    by auto
qed

lemma cleanup_others_killed: "others_killed s \<Longrightarrow> others_killed (cleanup b code s)"
  by (rule others_killed_mono [where s = s]) (auto simp: cleanup_def)

lemma on_event_others_killed:
  assumes "others_killed s"
  shows "others_killed (on_event h b e s)"
proof (cases e)
  case (VscodeStdout d)
  show ?thesis
    by (rule others_killed_mono [OF assms])
       (use fold_vscode_effects in \<open>simp_all add: VscodeStdout on_event_def on_data_lines\<close>)
next
  case (TscStdout d)
  show ?thesis
    by (rule others_killed_mono [OF assms])
       (use fold_tsc_effects in \<open>simp_all add: TscStdout on_event_def on_data_lines\<close>)
next
  case (VscodeExit code)
  have "others_killed (s\<lparr>effects := effects s @ log b ''vs code watcher terminated unexpectedly''\<rparr>)"
    by (rule others_killed_mono [OF assms]) auto
  then show ?thesis using assms by (simp add: VscodeExit on_event_def cleanup_others_killed)
next
  case (TscExit code)
  have "others_killed (s\<lparr>effects := effects s @ log b ''tsc terminated unexpectedly''\<rparr>)"
    by (rule others_killed_mono [OF assms]) auto
  then show ?thesis using assms by (simp add: TscExit on_event_def cleanup_others_killed)
next
  case BundleRejected
  have "others_killed (s\<lparr>effects := effects s @ log b ''parcel watcher terminated unexpectedly''\<rparr>)"
    by (rule others_killed_mono [OF assms]) auto
  then show ?thesis using assms by (simp add: BundleRejected on_event_def cleanup_others_killed)
next
  case (ServerExit p)
  show ?thesis
    by (rule others_killed_mono [OF assms]) (auto simp: ServerExit on_event_def)
qed (use assms in \<open>auto simp: on_event_def cleanup_others_killed intro: others_killed_mono [OF assms]\<close>)

lemma step_others_killed: "others_killed s \<Longrightarrow> others_killed (step h b e s)"
  by (simp add: step_def then_jobs_others_killed on_event_others_killed)

lemma run_events_others_killed: "others_killed s \<Longrightarrow> others_killed (run_events h b es s)"
  unfolding run_events_def by (induction es arbitrary: s) (simp_all add: step_others_killed)

lemma watch_others_killed: "others_killed watch"
  by (simp add: others_killed_def watch_def)

text \<open>
  C1, as the code has it: \<open>restartServer\<close> sends the kill signal to the server it holds,
  if any, and forks the replacement at once, without waiting for the exit of the old
  one. So two servers can be running at a time; but in every state the supervisor
  reaches, each running server other than the one it holds has been sent the kill
  signal.
\<close>

theorem restartServer_kills_before_fork:
  "effects (restartServer s) =
      effects s @ (case server s of None \<Rightarrow> [] | Some p \<Rightarrow> [Kill (Server p)])
        @ [Fork (forked s), ConsoleLog [''[server] spawned process '' @ showNat (forked s)]]
   \<and> server (restartServer s) = Some (forked s)
   \<and> others_killed (run_events h b es watch)"
  using run_events_others_killed [OF watch_others_killed, of h b es]
  by (simp add: restartServer_def Let_def)

theorem restartServer_kills_before_fork_witness:
  "running (run_events glibc_host watch_builder
      [TscStdout (''Watching for file changes.'' @ [newline]),
       TscStdout (''Watching for file changes.'' @ [newline]), BundleResolved] watch) = [0, 1]
   \<and> server (run_events glibc_host watch_builder
      [TscStdout (''Watching for file changes.'' @ [newline]),
       TscStdout (''Watching for file changes.'' @ [newline]), BundleResolved] watch) = Some 1
   \<and> Kill (Server 0) \<in> set (effects (run_events glibc_host watch_builder
      [TscStdout (''Watching for file changes.'' @ [newline]),
       TscStdout (''Watching for file changes.'' @ [newline]), BundleResolved] watch))"
proof -
  let ?t = "run_events glibc_host watch_builder
      [TscStdout (''Watching for file changes.'' @ [newline]),
       TscStdout (''Watching for file changes.'' @ [newline]), BundleResolved] watch"
  have r: "running ?t = [0, 1]" by code_simp
  have s: "server ?t = Some 1" by code_simp
  from restartServer_kills_before_fork [of watch glibc_host watch_builder
      "[TscStdout (''Watching for file changes.'' @ [newline]),
       TscStdout (''Watching for file changes.'' @ [newline]), BundleResolved]"]
  have "others_killed ?t" by blast
  then have "server ?t = Some 0 \<or> Kill (Server 0) \<in> set (effects ?t)"
    unfolding others_killed_def r by simp
  with s have "Kill (Server 0) \<in> set (effects ?t)" by simp
  with r s show ?thesis by blast
qed

text \<open>Two restarts in a row, with no exit reported in between: the second server is
  forked right after the kill signal to the first, and both are running.\<close>

theorem restartServer_twice_two_running:
  "running (run_events glibc_host watch_builder
      [TscStdout (''Watching for file changes.'' @ [newline]),
       TscStdout (''Watching for file changes.'' @ [newline]), BundleResolved] watch) = [0, 1]
   \<and> filter (\<lambda>e. case e of Kill _ \<Rightarrow> True | Fork _ \<Rightarrow> True | ConsoleLog _ \<Rightarrow> True | _ \<Rightarrow> False)
       (effects (run_events glibc_host watch_builder
         [TscStdout (''Watching for file changes.'' @ [newline]),
          TscStdout (''Watching for file changes.'' @ [newline]), BundleResolved] watch)) =
     [ConsoleLog [''[tsc]'', ''Watching for file changes.''],
      ConsoleLog [''[tsc]'', ''Watching for file changes.''],
      Fork 0, ConsoleLog [''[server] spawned process 0''],
      Kill (Server 0), Fork 1, ConsoleLog [''[server] spawned process 1'']]"
  by code_simp

end
